theory Spec2Isabelle
  imports Main "HOL-Library.Word"
begin

section \<open>Regular expressions as used through Python's \<open>re.match\<close>\<close>

text \<open>
  The script hands regular-expression literals to \<open>re.match(pattern, text)\<close> and only
  tests whether a match object comes back.  The patterns are kept as syntax trees; the
  function \<open>show_regex\<close> prints a tree back in Python's concrete syntax, so that every
  pattern below can be compared with the literal in the script.

  \<open>Lazy r\<close> is \<open>r*?\<close>: laziness changes which match is found first, not whether one
  exists, so it shares the clause of \<open>Star\<close>.
\<close>

datatype regex =
    Lit string
  | Dot
  | Cls "char list"
  | Bol
  | Eol
  | Seq regex regex
  | Grp regex
  | Star regex
  | Lazy regex
  | Plus regex
  | Opt regex

definition seqs :: "regex list \<Rightarrow> regex" where
  "seqs rs = foldr Seq rs (Lit [])"

definition backslash :: char where
  "backslash = CHR 0x5C"

definition newline :: char where
  "newline = CHR 0x0A"

definition esc :: "char \<Rightarrow> string" where
  "esc c = (if c = CHR ''['' \<or> c = CHR '']'' then [backslash, c] else [c])"

primrec show_regex :: "regex \<Rightarrow> string" where
  "show_regex (Lit l) = concat (map esc l)"
| "show_regex Dot = ''.''"
| "show_regex (Cls cs) = ''['' @ cs @ '']''"
| "show_regex Bol = ''^''"
| "show_regex Eol = ''$''"
| "show_regex (Seq a b) = show_regex a @ show_regex b"
| "show_regex (Grp a) = ''('' @ show_regex a @ '')''"
| "show_regex (Star a) = show_regex a @ ''*''"
| "show_regex (Lazy a) = show_regex a @ ''*?''"
| "show_regex (Plus a) = show_regex a @ ''+''"
| "show_regex (Opt a) = show_regex a @ ''?''"

text \<open>
  A matcher state is the text still to be read together with a flag telling whether the
  matcher stands at position 0 of the subject (where \<open>^\<close> succeeds).  A pattern maps a
  state to the list of states in which a match of it can end.
\<close>

type_synonym mstate = "bool \<times> string"

fun step_chr :: "(char \<Rightarrow> bool) \<Rightarrow> mstate \<Rightarrow> mstate list" where
  "step_chr P (b, []) = []"
| "step_chr P (b, c # cs) = (if P c then [(False, cs)] else [])"

fun lit :: "string \<Rightarrow> mstate \<Rightarrow> mstate list" where
  "lit [] st = [st]"
| "lit (c # l) (b, []) = []"
| "lit (c # l) (b, x # xs) = (if x = c then lit l (False, xs) else [])"

text \<open>
  Repetition: every further round must consume at least one character (a round that
  consumes nothing ends in a state already listed), so as many rounds as characters
  are left are enough.
\<close>

primrec star_iter :: "(mstate \<Rightarrow> mstate list) \<Rightarrow> nat \<Rightarrow> mstate \<Rightarrow> mstate list" where
  "star_iter f 0 st = [st]"
| "star_iter f (Suc n) st =
     st # concat (map (star_iter f n)
                   (filter (\<lambda>st'. length (snd st') < length (snd st)) (f st)))"

primrec rmatch :: "regex \<Rightarrow> mstate \<Rightarrow> mstate list" where
  "rmatch (Lit l) st = lit l st"
| "rmatch Dot st = step_chr (\<lambda>c. c \<noteq> newline) st"
| "rmatch (Cls cs) st = step_chr (\<lambda>c. c \<in> set cs) st"
| "rmatch Bol st = (if fst st then [st] else [])"
| "rmatch Eol st = (if snd st = [] \<or> snd st = [newline] then [st] else [])"
| "rmatch (Seq a b) st = concat (map (rmatch b) (rmatch a st))"
| "rmatch (Grp a) st = rmatch a st"
| "rmatch (Star a) st = star_iter (rmatch a) (length (snd st)) st"
| "rmatch (Lazy a) st = star_iter (rmatch a) (length (snd st)) st"
| "rmatch (Plus a) st =
     concat (map (\<lambda>st'. star_iter (rmatch a) (length (snd st')) st') (rmatch a st))"
| "rmatch (Opt a) st = st # rmatch a st"

definition re_match :: "regex \<Rightarrow> string \<Rightarrow> bool" where
  "re_match p s = (rmatch p (True, s) \<noteq> [])"

section \<open>The tail classifier \<open>ROP.check_end\<close>\<close>

definition re_call_r :: regex where
  "re_call_r = seqs [Lit ''call r'', Dot, Opt Dot]"

definition re_call_e :: regex where
  "re_call_e = seqs [Lit ''call e'', Dot, Dot]"

definition re_pop_pc :: regex where
  "re_pop_pc = seqs [Lit ''pop {'', Lazy Dot, Lit '', pc}'']"

definition re_svc :: regex where
  "re_svc = seqs [Lit ''s'', Cls ''vw'', Cls ''ci'', Lit '' '', Lazy Dot]"

definition re_bx :: regex where
  "re_bx = seqs [Lit ''b'', Opt (Lit ''l''), Opt (Lit ''x''), Lit '' '', Dot, Dot, Eol]"

definition check_end :: "string \<Rightarrow> string \<Rightarrow> bool" where
  "check_end arch instruction =
    (if ''x64'' = arch then
       (if ''ret'' = instruction \<or> ''syscall'' = instruction then True
        else if re_match re_call_r instruction then True
        else False)
     else if ''x86'' = arch then
       (if ''ret'' = instruction \<or> ''int 0x80'' = instruction then True
        else if re_match re_call_e instruction then True
        else False)
     else if ''arm'' = arch then
       (if re_match re_pop_pc instruction then True
        else if re_match re_svc instruction then True
        else if re_match re_bx instruction then True
        else False)
     else if ''aarch64'' = arch then
       (if re_match re_svc instruction then True
        else if ''ret'' = instruction then True
        else if re_match re_pop_pc instruction then True
        else False)
     else False)"

section \<open>Python built-ins used by the script\<close>

type_synonym byte = "8 word"

text \<open>\<open>str.strip()\<close> removes the characters for which \<open>str.isspace\<close> holds.\<close>

definition isspace :: "char \<Rightarrow> bool" where
  "isspace c = ((of_char c :: nat) \<in> {9, 10, 11, 12, 13, 28, 29, 30, 31, 32, 133, 160})"

definition strip :: "string \<Rightarrow> string" where
  "strip s = rev (dropWhile isspace (rev (dropWhile isspace s)))"

fun join :: "string \<Rightarrow> string list \<Rightarrow> string" where
  "join sep [] = []"
| "join sep [x] = x"
| "join sep (x # y # ys) = x @ sep @ join sep (y # ys)"

text \<open>\<open>xs[lo:hi]\<close>: a negative bound counts from the end, and both are clipped.\<close>

definition clip :: "nat \<Rightarrow> int \<Rightarrow> nat" where
  "clip n k = (if k < 0 then nat (max (k + int n) 0) else min (nat k) n)"

definition py_slice :: "'a list \<Rightarrow> int \<Rightarrow> int \<Rightarrow> 'a list" where
  "py_slice xs lo hi =
     (let n = length xs; l = clip n lo; h = clip n hi in take (h - l) (drop l xs))"

text \<open>
  \<open>range(start, stop, step)\<close>.  \<open>step = 0\<close> raises \<open>ValueError\<close> in Python; the
  script only passes the \<open>instruction_size\<close> chosen by \<open>set_mode\<close> (1 or 4), and the
  model returns no offsets there.
\<close>

definition py_range :: "int \<Rightarrow> int \<Rightarrow> int \<Rightarrow> int list" where
  "py_range a b step =
     (if step > 0 then map (\<lambda>k. a + int k * step) [0 ..< nat ((b - a + step - 1) div step)]
      else if step < 0 then map (\<lambda>k. a + int k * step) [0 ..< nat ((a - b - step - 1) div (- step))]
      else [])"

definition digit_char :: "nat \<Rightarrow> char" where
  "digit_char d = ''0123456789abcdef'' ! d"

fun hex_digits :: "nat \<Rightarrow> string" where
  "hex_digits n = (if n < 16 then [digit_char n] else hex_digits (n div 16) @ [digit_char (n mod 16)])"

fun str_nat :: "nat \<Rightarrow> string" where
  "str_nat n = (if n < 10 then [digit_char n] else str_nat (n div 10) @ [digit_char (n mod 10)])"

text \<open>
  The format specification \<open>#08x\<close> of \<open>f"{address:#08x}"\<close>: alternate form (prefix
  \<open>0x\<close>), zero padding after sign and prefix, and a minimum field width of 8 that
  counts the sign and the prefix.
\<close>

definition format_08x :: "int \<Rightarrow> string" where
  "format_08x n =
     (let sign = (if n < 0 then ''-'' else []);
          digits = hex_digits (nat \<bar>n\<bar>)
      in sign @ ''0x'' @ replicate (8 - (length sign + 2 + length digits)) CHR ''0'' @ digits)"

text \<open>
  A \<open>dict\<close> keeps its keys in insertion order; assigning to a key that is present
  replaces the value where it stands.
\<close>

fun dict_set :: "('k \<times> 'v) list \<Rightarrow> 'k \<Rightarrow> 'v \<Rightarrow> ('k \<times> 'v) list" where
  "dict_set [] k v = [(k, v)]"
| "dict_set ((k', v') # d) k v =
     (if k' = k then (k, v) # d else (k', v') # dict_set d k v)"

definition dict_values :: "('k \<times> 'v) list \<Rightarrow> 'v list" where
  "dict_values d = map snd d"

section \<open>The \<open>ROP\<close> object\<close>

text \<open>
  The disassembly engine is capstone: \<open>disasm(window, address)\<close> yields the decoded
  instructions as pairs of mnemonic and operand string.  It is a parameter of the model.
\<close>

type_synonym decoder = "byte list \<Rightarrow> int \<Rightarrow> (string \<times> string) list"



type_synonym store = "(int \<times> string list) list"

record rop =
  arch :: string
  start :: int
  end' :: int
  va :: int
  instruction_size :: int
  pattern :: "regex list option"
  dis_engine :: decoder
  gadgets :: store
  interesting_gadget :: store
  gadgets_asm :: string


subsection \<open>Pattern tables\<close>

definition pops :: "string \<Rightarrow> regex" where
  "pops r = Grp (seqs [Lit (''pop '' @ r), Dot, Dot, Lit ''; ''])"

definition pop_ret :: "string \<Rightarrow> regex" where
  "pop_ret r = seqs [Bol, Star (pops r), Lit ''ret'']"

definition pop_call_e :: regex where
  "pop_call_e = seqs [Bol, pops ''e'', Lit ''call e'', Dot, Dot]"

definition pop_jmp_e :: regex where
  "pop_jmp_e = seqs [Bol, pops ''e'', Lit ''jmp e'', Dot, Dot]"

definition mov_dword_e :: regex where
  "mov_dword_e = seqs [Bol, Lit ''mov dword ptr [e'', Dot, Dot, Lit ''], e'', Dot, Dot, Lit ''; ret'']"

definition mov_dq :: "string \<Rightarrow> regex" where
  "mov_dq r = seqs [Bol, Lit ''mov '', Cls ''dq'', Lit ''word ptr [r'', Dot, Dot,
                    Lit (''], '' @ r), Dot, Dot, Lit ''; ret'']"

text \<open>
  In \<open>patterns_x86\<close> no comma separates the first two literals, so Python joins them
  into one pattern: the first element is the sequence of both.
\<close>

definition patterns_x86 :: "regex list" where
  "patterns_x86 = [Seq (pop_ret ''e'') pop_call_e, pop_jmp_e, mov_dword_e]"

definition patterns_x64 :: "regex list" where
  "patterns_x64 = [pop_ret ''e'', pop_ret ''r'', mov_dq ''r'', mov_dq ''e'']"



subsection \<open>\<open>set_mode\<close>\<close>


subsection \<open>\<open>set_offsets\<close>\<close>




subsection \<open>\<open>find_gadgets\<close>\<close>

text \<open>
  The inner loop over the decoded instructions: each one is rendered, stripped and
  appended to \<open>tmp\<close>; the loop leaves at the first one \<open>check_end\<close> accepts.  \<open>None\<close>
  is the case \<open>not found\<close>.
\<close>

fun scan_window :: "string \<Rightarrow> (string \<times> string) list \<Rightarrow> string list \<Rightarrow> string list option" where
  "scan_window a [] tmp = None"
| "scan_window a (decoded # disassembly) tmp =
     (let inst = strip (fst decoded @ '' '' @ snd decoded);
          tmp' = tmp @ [inst]
      in if check_end a inst then Some tmp' else scan_window a disassembly tmp')"

definition candidate :: "byte list \<Rightarrow> rop \<Rightarrow> int \<Rightarrow> string list option" where
  "candidate file_content self i =
     scan_window (arch self) (dis_engine self (py_slice file_content i (i + 20)) (va self + i)) []"

text \<open>One round of the outer loop, on the gadget dictionary.\<close>

definition scan_offset :: "byte list \<Rightarrow> rop \<Rightarrow> store \<Rightarrow> int \<Rightarrow> store" where
  "scan_offset file_content self g i =
     (case candidate file_content self i of
        None \<Rightarrow> g
      | Some tmp \<Rightarrow> if tmp \<in> set (dict_values g) then g else dict_set g (va self + i) tmp)"

definition scan_offsets :: "rop \<Rightarrow> int list" where
  "scan_offsets self =
     py_range (start self) (end' self + instruction_size self * 2) (instruction_size self)"

definition report_line :: "int \<Rightarrow> string list \<Rightarrow> string" where
  "report_line address instructions =
     format_08x address @ '': '' @ join ''; '' instructions @ [newline]"

definition find_gadgets :: "byte list \<Rightarrow> rop \<Rightarrow> rop" where
  "find_gadgets file_content self =
     (let g = foldl (scan_offset file_content self) (gadgets self) (scan_offsets self);
          to_write = concat (map (\<lambda>(address, instructions). report_line address instructions) g)
      in self\<lparr>gadgets := g,
              gadgets_asm := str_nat (length g) @ '' gadgets found'' @ [newline] @ to_write\<rparr>)"

subsection \<open>\<open>check_interesting\<close>\<close>

text \<open>
  The loop over the patterns for one gadget, on the dictionary of interesting gadgets
  and the text \<open>to_write\<close>.  The script has no \<open>break\<close>: every pattern is tried.
  \<open>make_function\<close> is called at each recording and does nothing.
\<close>

fun check_patterns :: "regex list \<Rightarrow> int \<Rightarrow> string list \<Rightarrow> store \<times> string \<Rightarrow> store \<times> string" where
  "check_patterns [] address i acc = acc"
| "check_patterns (p # ps) address i (ig, to_write) =
     (if re_match p (join ''; '' i) \<and> i \<notin> set (dict_values ig)
      then check_patterns ps address i
             (dict_set ig address i, to_write @ report_line address i)
      else check_patterns ps address i (ig, to_write))"

definition check_gadgets :: "regex list \<Rightarrow> store \<Rightarrow> store \<times> string \<Rightarrow> store \<times> string" where
  "check_gadgets ps g acc = foldl (\<lambda>acc (address, i). check_patterns ps address i acc) acc g"

definition interesting_header :: string where
  "interesting_header = [newline, newline] @ ''Interesting Gadgets:'' @ [newline]"

definition check_interesting :: "rop \<Rightarrow> rop" where
  "check_interesting self =
     (case pattern self of
        None \<Rightarrow> self
      | Some ps \<Rightarrow>
          (let (ig, to_write) = check_gadgets ps (gadgets self) (interesting_gadget self, [])
           in if length ig > 0
              then self\<lparr>interesting_gadget := ig,
                        gadgets_asm := gadgets_asm self @ interesting_header @ to_write\<rparr>
              else self\<lparr>interesting_gadget := ig\<rparr>))"

subsection \<open>The whole run\<close>

definition initialize :: "byte list \<Rightarrow> rop \<Rightarrow> rop" where
  "initialize file_content self = check_interesting (find_gadgets file_content self)"


subsection \<open>A miniature decoder for concrete runs\<close>

text \<open>
  A stand-in for capstone in 64-bit x86 mode on three one-byte instructions (\<open>c3\<close>
  ret, \<open>58\<close> pop of the accumulator, \<open>90\<close> nop); decoding stops at any other byte, as
  capstone stops at an invalid opcode (\<open>06\<close> is one in 64-bit mode).  In every other
  mode the stand-in decodes nothing.
\<close>

primrec mini_disasm :: "string \<Rightarrow> byte list \<Rightarrow> int \<Rightarrow> (string \<times> string) list" where
  "mini_disasm acc [] address = []"
| "mini_disasm acc (b # bs) address =
     (if b = 0xC3 then (''ret'', []) # mini_disasm acc bs (address + 1)
      else if b = 0x58 then (''pop'', acc) # mini_disasm acc bs (address + 1)
      else if b = 0x90 then (''nop'', []) # mini_disasm acc bs (address + 1)
      else [])"


section \<open>Notions used in the statements\<close>

text \<open>A sequence that ends in a tail instruction and holds no tail instruction before.\<close>

definition tail_only :: "string \<Rightarrow> string list \<Rightarrow> bool" where
  "tail_only a g =
     (g \<noteq> [] \<and> check_end a (last g) \<and> (\<forall>x \<in> set (butlast g). \<not> check_end a x))"

text \<open>Reading a string of hexadecimal digits back as a number.\<close>

definition digit_value :: "char \<Rightarrow> nat" where
  "digit_value c = length (takeWhile (\<lambda>d. d \<noteq> c) ''0123456789abcdef'')"

definition hex_value :: "string \<Rightarrow> nat" where
  "hex_value ds = foldl (\<lambda>acc c. 16 * acc + digit_value c) 0 ds"


text \<open>
  Notions for the outer loop of \<open>find_gadgets\<close> after the offsets \<open>pre\<close>: every
  candidate met so far has its content in the dictionary (\<open>seen\<close>); an entry stands at
  the address of the least offset met so far that yields its content (\<open>first_kept\<close>).
\<close>

definition seen :: "byte list \<Rightarrow> rop \<Rightarrow> int list \<Rightarrow> store \<Rightarrow> bool" where
  "seen fc self pre s =
     (\<forall>i \<in> set pre. \<forall>t. candidate fc self i = Some t \<longrightarrow> t \<in> set (dict_values s))"

definition first_kept :: "byte list \<Rightarrow> rop \<Rightarrow> int list \<Rightarrow> int \<Rightarrow> string list \<Rightarrow> bool" where
  "first_kept fc self pre k t =
     (\<exists>i \<in> set pre. k = va self + i \<and> candidate fc self i = Some t \<and>
           (\<forall>j \<in> set pre. candidate fc self j = Some t \<longrightarrow> i \<le> j))"

definition scanned :: "byte list \<Rightarrow> rop \<Rightarrow> int list \<Rightarrow> store \<Rightarrow> bool" where
  "scanned fc self pre s =
     (seen fc self pre s \<and> (\<forall>(k, t) \<in> set s. first_kept fc self pre k t) \<and>
      distinct (dict_values s))"

subsection \<open>Concrete inputs\<close>

text \<open>
  An x64 object on the miniature decoder, with load address \<open>0x400000\<close> and the scan
  range given; the bytes \<open>58 c3 c3\<close> (pop, ret, ret); and a buffer of twenty bytes
  whose only valid opcode is the \<open>ret\<close> at offset 10.
\<close>

definition demo_rop :: "int \<Rightarrow> int \<Rightarrow> rop" where
  "demo_rop s e =
     \<lparr>arch = ''x64'', start = s, end' = e, va = 0x400000, instruction_size = 1,
      pattern = Some patterns_x64, dis_engine = mini_disasm ''rax'', gadgets = [],
      interesting_gadget = [], gadgets_asm = []\<rparr>"

definition pop_ret_ret :: "byte list" where
  "pop_ret_ret = [0x58, 0xC3, 0xC3]"

definition ret_at_10 :: "byte list" where
  "ret_at_10 = replicate 10 0x06 @ [0xC3] @ replicate 9 0x06"





section \<open>Properties of the tail classifier\<close>

lemmas check_end_unfold =
  check_end_def re_match_def re_call_r_def re_call_e_def re_pop_pc_def re_svc_def re_bx_def
  seqs_def newline_def

text \<open>
  Claim C8.  The classifier set to \<open>arm\<close> rejects the instruction \<open>syscall\<close>, which the
  classifier set to \<open>x64\<close> accepts as a gadget tail.
\<close>

theorem arm_rejects_syscall:
  "check_end ''arm'' ''syscall'' = False \<and> check_end ''x64'' ''syscall'' = True"
  by (simp add: check_end_unfold)

section \<open>Evaluating the concrete inputs\<close>

lemma strip_pop_rax: "strip ''pop rax'' = ''pop rax''"
  by code_simp

lemma strip_ret: "strip ''ret '' = ''ret''"
  by code_simp

lemma x64_ret: "check_end ''x64'' ''ret''"
  by (simp add: check_end_def)

lemma x64_pop_rax: "\<not> check_end ''x64'' ''pop rax''"
  by (simp add: check_end_unfold)

lemma demo_fields [simp]:
  "arch (demo_rop s e) = ''x64''" "start (demo_rop s e) = s" "end' (demo_rop s e) = e"
  "va (demo_rop s e) = 0x400000" "instruction_size (demo_rop s e) = 1"
  "dis_engine (demo_rop s e) = mini_disasm ''rax''" "gadgets (demo_rop s e) = []"
  "pattern (demo_rop s e) = Some patterns_x64" "interesting_gadget (demo_rop s e) = []"
  by (simp_all add: demo_rop_def)

lemmas candidate_eval =
  candidate_def py_slice_def clip_def Let_def strip_pop_rax strip_ret x64_ret x64_pop_rax

lemma demo_candidate_0: "candidate pop_ret_ret (demo_rop s e) 0 = Some [''pop rax'', ''ret'']"
  by (simp add: candidate_eval pop_ret_ret_def)

lemma demo_candidate_1: "candidate pop_ret_ret (demo_rop s e) 1 = Some [''ret'']"
  by (simp add: candidate_eval pop_ret_ret_def)

lemma demo_candidate_2: "candidate pop_ret_ret (demo_rop s e) 2 = Some [''ret'']"
  by (simp add: candidate_eval pop_ret_ret_def)

lemma range_0_3: "py_range 0 3 1 = [0, 1, 2]"
  by code_simp

lemma demo_offsets: "scan_offsets (demo_rop 0 1) = [0, 1, 2]"
  by (simp add: scan_offsets_def range_0_3)

lemma demo_store:
  "gadgets (find_gadgets pop_ret_ret (demo_rop 0 1)) =
     [(0x400000, [''pop rax'', ''ret'']), (0x400001, [''ret''])]"
  by (simp add: find_gadgets_def Let_def demo_offsets scan_offset_def
        demo_candidate_0 demo_candidate_1 demo_candidate_2 dict_values_def)

section \<open>The scan stores terminated sequences only\<close>

lemma scan_window_tail_only:
  "scan_window a d tmp = Some g \<Longrightarrow> \<forall>x \<in> set tmp. \<not> check_end a x \<Longrightarrow> tail_only a g"
proof (induction d arbitrary: tmp)
  case Nil
  then show ?case by simp
next
  case (Cons decoded d)
  let ?inst = "strip (fst decoded @ '' '' @ snd decoded)"
  show ?case
  proof (cases "check_end a ?inst")
    case True
    with Cons.prems have "g = tmp @ [?inst]" by (simp add: Let_def)
    with True Cons.prems(2) show ?thesis by (simp add: tail_only_def)
  next
    case False
    with Cons.prems have "scan_window a d (tmp @ [?inst]) = Some g" by (simp add: Let_def)
    moreover from False Cons.prems(2) have "\<forall>x \<in> set (tmp @ [?inst]). \<not> check_end a x" by simp
    ultimately show ?thesis by (rule Cons.IH)
  qed
qed

lemma candidate_tail_only: "candidate fc self i = Some tmp \<Longrightarrow> tail_only (arch self) tmp"
  using scan_window_tail_only [of "arch self" _ "[]" tmp] by (simp add: candidate_def)

lemma set_dict_set: "set (dict_set d k v) \<subseteq> insert (k, v) (set d)"
  by (induction d) (auto split: if_splits)

lemma scan_offset_tail_only:
  assumes "\<forall>(k, g) \<in> set s. tail_only (arch self) g"
  shows "\<forall>(k, g) \<in> set (scan_offset fc self s i). tail_only (arch self) g"
proof (cases "candidate fc self i")
  case None
  with assms show ?thesis by (simp add: scan_offset_def)
next
  case (Some tmp)
  then have "tail_only (arch self) tmp" by (rule candidate_tail_only)
  with assms Some set_dict_set [of s "va self + i" tmp] show ?thesis
    by (auto simp: scan_offset_def)
qed

lemma foldl_scan_tail_only:
  "\<forall>(k, g) \<in> set s. tail_only (arch self) g \<Longrightarrow>
   \<forall>(k, g) \<in> set (foldl (scan_offset fc self) s offs). tail_only (arch self) g"
proof (induction offs arbitrary: s)
  case Nil
  then show ?case by simp
next
  case (Cons i offs)
  from Cons.prems have "\<forall>(k, g) \<in> set (scan_offset fc self s i). tail_only (arch self) g"
    by (rule scan_offset_tail_only)
  then show ?case using Cons.IH by simp
qed

lemma gadgets_find_gadgets:
  "gadgets (find_gadgets fc self) =
     foldl (scan_offset fc self) (gadgets self) (scan_offsets self)"
  by (simp add: find_gadgets_def Let_def)

text \<open>
  Claim C1.  When every gadget held before the scan ends in its only tail instruction
  (as in a fresh run, where the dictionary is empty), every gadget held after
  \<open>find_gadgets\<close> is non-empty, \<open>check_end\<close> accepts its last instruction and
  rejects each earlier one: no sequence without a tail is stored.
\<close>

theorem find_gadgets_tail_only:
  assumes "\<forall>(k, g) \<in> set (gadgets self). tail_only (arch self) g"
  shows "\<forall>(k, g) \<in> set (gadgets (find_gadgets fc self)).
           g \<noteq> [] \<and> check_end (arch self) (last g) \<and>
           (\<forall>x \<in> set (butlast g). \<not> check_end (arch self) x)"
  using foldl_scan_tail_only [OF assms, of fc "scan_offsets self"]
  by (simp add: gadgets_find_gadgets tail_only_def)

theorem find_gadgets_tail_only_witness:
  "gadgets (demo_rop 0 1) = [] \<and>
   gadgets (find_gadgets pop_ret_ret (demo_rop 0 1)) =
     [(0x400000, [''pop rax'', ''ret'']), (0x400001, [''ret''])] \<and>
   check_end ''x64'' (last [''pop rax'', ''ret'']) \<and>
   \<not> check_end ''x64'' ''pop rax'' \<and>
   check_end ''x64'' (last [''ret''])"
  using find_gadgets_tail_only [of "demo_rop 0 1" pop_ret_ret]
  by (simp add: demo_store)

section \<open>The first occurrence of a content is the one kept\<close>

lemma dict_set_fresh: "k \<notin> fst ` set d \<Longrightarrow> dict_set d k v = d @ [(k, v)]"
  by (induction d) auto

lemma sorted_py_range: "0 < step \<Longrightarrow> sorted_wrt (<) (py_range a b step)"
  by (simp add: py_range_def sorted_wrt_map sorted_wrt_upt)

lemma first_kept_snoc:
  assumes "first_kept fc self pre k t" and "\<forall>j \<in> set pre. j < i"
  shows "first_kept fc self (pre @ [i]) k t"
proof -
  from assms(1) obtain i0 where i0: "i0 \<in> set pre" "k = va self + i0"
      "candidate fc self i0 = Some t"
      "\<forall>j \<in> set pre. candidate fc self j = Some t \<longrightarrow> i0 \<le> j"
    unfolding first_kept_def by blast
  from i0(1) assms(2) have "i0 \<le> i" by auto
  with i0 show ?thesis unfolding first_kept_def
    by (intro bexI [of _ i0]) auto
qed

lemma first_kept_new:
  assumes "candidate fc self i = Some t" and "\<forall>j \<in> set pre. candidate fc self j \<noteq> Some t"
  shows "first_kept fc self (pre @ [i]) (va self + i) t"
  using assms unfolding first_kept_def by (intro bexI [of _ i]) auto

lemma scanned_unchanged:
  assumes inv: "scanned fc self pre s" and less: "\<forall>j \<in> set pre. j < i"
    and c: "\<forall>t. candidate fc self i = Some t \<longrightarrow> t \<in> set (dict_values s)"
  shows "scanned fc self (pre @ [i]) s"
proof -
  from inv c have "seen fc self (pre @ [i]) s"
    by (simp add: scanned_def seen_def)
  moreover from inv less have "\<forall>(k, t) \<in> set s. first_kept fc self (pre @ [i]) k t"
    by (auto simp: scanned_def intro: first_kept_snoc)
  ultimately show ?thesis using inv by (simp add: scanned_def)
qed

lemma scanned_added:
  assumes inv: "scanned fc self pre s" and less: "\<forall>j \<in> set pre. j < i"
    and c: "candidate fc self i = Some tmp" and new: "tmp \<notin> set (dict_values s)"
  shows "scanned fc self (pre @ [i]) (s @ [(va self + i, tmp)])"
proof -
  from inv new have none: "\<forall>j \<in> set pre. candidate fc self j \<noteq> Some tmp"
    by (auto simp: scanned_def seen_def)
  from inv c have "seen fc self (pre @ [i]) (s @ [(va self + i, tmp)])"
    by (auto simp: scanned_def seen_def dict_values_def)
  moreover have "\<forall>(k, t) \<in> set (s @ [(va self + i, tmp)]). first_kept fc self (pre @ [i]) k t"
    using inv less first_kept_new [OF c none]
    by (auto simp: scanned_def intro: first_kept_snoc)
  moreover from inv new have "distinct (dict_values (s @ [(va self + i, tmp)]))"
    by (simp add: scanned_def dict_values_def)
  ultimately show ?thesis by (simp add: scanned_def)
qed

lemma scanned_keys:
  assumes inv: "scanned fc self pre s" and less: "\<forall>j \<in> set pre. j < i"
  shows "va self + i \<notin> fst ` set s"
proof
  assume "va self + i \<in> fst ` set s"
  then obtain t where "(va self + i, t) \<in> set s" by auto
  with inv have "first_kept fc self pre (va self + i) t" by (auto simp: scanned_def)
  then obtain i0 where "i0 \<in> set pre" "va self + i = va self + i0"
    unfolding first_kept_def by blast
  with less show False by auto
qed

lemma scan_offset_scanned:
  assumes inv: "scanned fc self pre s" and less: "\<forall>j \<in> set pre. j < i"
  shows "scanned fc self (pre @ [i]) (scan_offset fc self s i)"
proof (cases "candidate fc self i")
  case None
  then have "scan_offset fc self s i = s" by (simp add: scan_offset_def)
  with scanned_unchanged [OF inv less] None show ?thesis by simp
next
  case (Some tmp)
  show ?thesis
  proof (cases "tmp \<in> set (dict_values s)")
    case True
    with Some have "scan_offset fc self s i = s" by (simp add: scan_offset_def)
    with scanned_unchanged [OF inv less] Some True show ?thesis by simp
  next
    case False
    with Some scanned_keys [OF inv less]
    have "scan_offset fc self s i = s @ [(va self + i, tmp)]"
      by (simp add: scan_offset_def dict_set_fresh)
    with scanned_added [OF inv less Some False] show ?thesis by simp
  qed
qed

lemma foldl_scanned:
  "scanned fc self pre s \<Longrightarrow> sorted_wrt (<) (pre @ offs) \<Longrightarrow>
   scanned fc self (pre @ offs) (foldl (scan_offset fc self) s offs)"
proof (induction offs arbitrary: pre s)
  case Nil
  then show ?case by simp
next
  case (Cons i offs)
  from Cons.prems(2) have less: "\<forall>j \<in> set pre. j < i"
    by (simp add: sorted_wrt_append)
  have "scanned fc self (pre @ [i]) (scan_offset fc self s i)"
    using Cons.prems(1) less by (rule scan_offset_scanned)
  moreover from Cons.prems(2) have "sorted_wrt (<) ((pre @ [i]) @ offs)" by simp
  ultimately have "scanned fc self ((pre @ [i]) @ offs)
      (foldl (scan_offset fc self) (scan_offset fc self s i) offs)"
    by (rule Cons.IH)
  then show ?case by simp
qed

lemma scanned_empty: "scanned fc self [] []"
  by (simp add: scanned_def seen_def dict_values_def)

lemma find_gadgets_scanned:
  assumes "gadgets self = []" and "0 < instruction_size self"
  shows "scanned fc self (scan_offsets self) (gadgets (find_gadgets fc self))"
  using foldl_scanned [OF scanned_empty, of "scan_offsets self" fc self] assms
  by (simp add: gadgets_find_gadgets scan_offsets_def sorted_py_range)

lemma find_gadgets_retains:
  assumes "gadgets self = []" and "0 < instruction_size self"
    and i: "i \<in> set (scan_offsets self)" and c: "candidate fc self i = Some t"
  shows "\<exists>i0 \<in> set (scan_offsets self).
           (va self + i0, t) \<in> set (gadgets (find_gadgets fc self)) \<and>
           candidate fc self i0 = Some t \<and> i0 \<le> i \<and>
           (\<forall>j \<in> set (scan_offsets self). candidate fc self j = Some t \<longrightarrow> i0 \<le> j)"
proof -
  let ?s = "gadgets (find_gadgets fc self)"
  from find_gadgets_scanned [OF assms(1,2), of fc]
  have seen: "seen fc self (scan_offsets self) ?s"
    and kept: "\<forall>(k, t) \<in> set ?s. first_kept fc self (scan_offsets self) k t"
    by (simp_all add: scanned_def)
  from seen i c have "t \<in> set (dict_values ?s)"
    unfolding seen_def by blast
  then obtain k where k: "(k, t) \<in> set ?s"
    by (auto simp: dict_values_def)
  with kept have "first_kept fc self (scan_offsets self) k t" by blast
  then obtain i0 where i0: "i0 \<in> set (scan_offsets self)" "k = va self + i0"
      "candidate fc self i0 = Some t"
      "\<forall>j \<in> set (scan_offsets self). candidate fc self j = Some t \<longrightarrow> i0 \<le> j"
    unfolding first_kept_def by blast
  from i0(4) i c have "i0 \<le> i" by blast
  with i0 k show ?thesis by blast
qed

text \<open>
  Claim C2.  A candidate whose instruction sequence is already a value of the
  dictionary leaves the dictionary as it is, whatever its address.  After a scan that
  starts from the empty dictionary the stored sequences are pairwise different, each
  entry stands at the address of the least offset of the scan whose candidate is that
  sequence, and every sequence the scan finds is retained: the dictionary holds it
  under the address of the least offset that yields it.
\<close>

theorem dedup_first_occurrence:
  assumes "gadgets self = []" and "0 < instruction_size self"
  shows "(\<forall>g i tmp. candidate fc self i = Some tmp \<longrightarrow> tmp \<in> set (dict_values g) \<longrightarrow>
            scan_offset fc self g i = g) \<and>
         distinct (dict_values (gadgets (find_gadgets fc self))) \<and>
         (\<forall>(k, t) \<in> set (gadgets (find_gadgets fc self)).
            \<exists>i \<in> set (scan_offsets self). k = va self + i \<and> candidate fc self i = Some t \<and>
              (\<forall>j \<in> set (scan_offsets self). candidate fc self j = Some t \<longrightarrow> i \<le> j)) \<and>
         (\<forall>i \<in> set (scan_offsets self). \<forall>t. candidate fc self i = Some t \<longrightarrow>
            (\<exists>i0 \<in> set (scan_offsets self).
               (va self + i0, t) \<in> set (gadgets (find_gadgets fc self)) \<and>
               candidate fc self i0 = Some t \<and> i0 \<le> i \<and>
               (\<forall>j \<in> set (scan_offsets self). candidate fc self j = Some t \<longrightarrow> i0 \<le> j)))"
proof -
  have "\<forall>g i tmp. candidate fc self i = Some tmp \<longrightarrow> tmp \<in> set (dict_values g) \<longrightarrow>
          scan_offset fc self g i = g"
    by (simp add: scan_offset_def)
  moreover from find_gadgets_scanned [OF assms, of fc]
  have "distinct (dict_values (gadgets (find_gadgets fc self)))"
    and "\<forall>(k, t) \<in> set (gadgets (find_gadgets fc self)).
           first_kept fc self (scan_offsets self) k t"
    by (simp_all add: scanned_def)
  moreover have "\<forall>i \<in> set (scan_offsets self). \<forall>t. candidate fc self i = Some t \<longrightarrow>
            (\<exists>i0 \<in> set (scan_offsets self).
               (va self + i0, t) \<in> set (gadgets (find_gadgets fc self)) \<and>
               candidate fc self i0 = Some t \<and> i0 \<le> i \<and>
               (\<forall>j \<in> set (scan_offsets self). candidate fc self j = Some t \<longrightarrow> i0 \<le> j))"
    using find_gadgets_retains [OF assms] by blast
  ultimately show ?thesis by (simp add: first_kept_def)
qed

theorem dedup_first_occurrence_witness:
  "gadgets (demo_rop 0 1) = [] \<and> 0 < instruction_size (demo_rop 0 1) \<and>
   candidate pop_ret_ret (demo_rop 0 1) 1 = Some [''ret''] \<and>
   candidate pop_ret_ret (demo_rop 0 1) 2 = Some [''ret''] \<and>
   scan_offset pop_ret_ret (demo_rop 0 1)
     [(0x400000, [''pop rax'', ''ret'']), (0x400001, [''ret''])] 2 =
     [(0x400000, [''pop rax'', ''ret'']), (0x400001, [''ret''])] \<and>
   gadgets (find_gadgets pop_ret_ret (demo_rop 0 1)) =
     [(0x400000, [''pop rax'', ''ret'']), (0x400001, [''ret''])] \<and>
   distinct (dict_values (gadgets (find_gadgets pop_ret_ret (demo_rop 0 1))))"
  using dedup_first_occurrence [of "demo_rop 0 1" pop_ret_ret]
  by (simp add: demo_store demo_candidate_1 demo_candidate_2 dict_values_def)

section \<open>The crafted buffer\<close>

lemma foldl_scan_none:
  "\<forall>i \<in> set offs. candidate fc self i = None \<Longrightarrow> foldl (scan_offset fc self) s offs = s"
  by (induction offs arbitrary: s) (simp_all add: scan_offset_def)

lemma range_0_17: "py_range 0 17 1 = [0, 1, 2, 3, 4, 5, 6, 7, 8, 9, 10, 11, 12, 13, 14, 15, 16]"
  by code_simp

lemma scan_window_ret: "scan_window ''x64'' ((''ret'', []) # rest) [] = Some [''ret'']"
  by (simp add: Let_def strip_ret x64_ret)

text \<open>
  Claim C3.  An x64 scan with \<open>start = 0\<close>, \<open>end = 15\<close> and step 1 visits the
  offsets 0 to 16.  When the window at offset 10 decodes to a \<open>ret\<close> first and no other
  offset of the scan yields a terminated sequence, a run that starts with the empty
  dictionary ends with exactly one gadget, \<open>["ret"]\<close>, under the key \<open>va + 10\<close>.
\<close>

theorem crafted_buffer_one_gadget:
  assumes "arch self = ''x64''" and "start self = 0" and "end' self = 15"
    and "instruction_size self = 1" and "gadgets self = []"
    and others: "\<forall>i. 0 \<le> i \<and> i < 17 \<and> i \<noteq> 10 \<longrightarrow> candidate fc self i = None"
    and ret: "dis_engine self (py_slice fc 10 30) (va self + 10) = (''ret'', []) # rest"
  shows "gadgets (find_gadgets fc self) = [(va self + 10, [''ret''])]"
proof -
  have offs: "scan_offsets self = [0, 1, 2, 3, 4, 5, 6, 7, 8, 9, 10, 11, 12, 13, 14, 15, 16]"
    using assms(2-4) by (simp add: scan_offsets_def range_0_17)
  have skip: "scan_offset fc self s i = s" if "0 \<le> i" "i < 17" "i \<noteq> 10" for s i
    using others that by (simp add: scan_offset_def)
  have "candidate fc self 10 = Some [''ret'']"
    using ret assms(1) scan_window_ret [of rest]
    by (simp add: candidate_def del: scan_window.simps)
  then have at: "scan_offset fc self [] 10 = [(va self + 10, [''ret''])]"
    by (simp add: scan_offset_def dict_values_def)
  show ?thesis
    by (simp add: gadgets_find_gadgets offs assms(5) skip at)
qed

lemma ret_at_10_nth: "n < 20 \<Longrightarrow> n \<noteq> 10 \<Longrightarrow> ret_at_10 ! n = 0x06"
  by (auto simp: ret_at_10_def nth_append nth_Cons split: nat.splits)

lemma ret_at_10_slice: "0 \<le> i \<Longrightarrow> i < 20 \<Longrightarrow> py_slice ret_at_10 i (i + 20) = drop (nat i) ret_at_10"
  by (simp add: py_slice_def clip_def ret_at_10_def Let_def)

lemma ret_at_10_others:
  assumes "0 \<le> i" and "i < 17" and "i \<noteq> 10"
  shows "candidate ret_at_10 (demo_rop s e) i = None"
proof -
  from assms have n: "nat i < length ret_at_10" "nat i < 20" "nat i \<noteq> 10"
    by (simp_all add: ret_at_10_def)
  have "drop (nat i) ret_at_10 = ret_at_10 ! nat i # drop (Suc (nat i)) ret_at_10"
    using n(1) by (simp add: Cons_nth_drop_Suc)
  also have "ret_at_10 ! nat i = 0x06" using n(2,3) by (rule ret_at_10_nth)
  finally show ?thesis using assms
    by (simp add: candidate_def ret_at_10_slice)
qed

lemma replicate_9: "replicate 9 x = x # replicate 8 x"
  by (simp add: eval_nat_numeral)

lemma ret_at_10_decode:
  "mini_disasm ''rax'' (py_slice ret_at_10 10 30) a = [(''ret'', [])]"
  by (simp add: py_slice_def clip_def ret_at_10_def Let_def replicate_9)

theorem crafted_buffer_one_gadget_witness:
  "arch (demo_rop 0 15) = ''x64'' \<and> start (demo_rop 0 15) = 0 \<and> end' (demo_rop 0 15) = 15 \<and>
   instruction_size (demo_rop 0 15) = 1 \<and> gadgets (demo_rop 0 15) = [] \<and>
   candidate ret_at_10 (demo_rop 0 15) 9 = None \<and>
   candidate ret_at_10 (demo_rop 0 15) 11 = None \<and>
   dis_engine (demo_rop 0 15) (py_slice ret_at_10 10 30) (va (demo_rop 0 15) + 10) = [(''ret'', [])] \<and>
   gadgets (find_gadgets ret_at_10 (demo_rop 0 15)) = [(0x40000A, [''ret''])]"
  using crafted_buffer_one_gadget [of "demo_rop 0 15" ret_at_10 "[]"]
  by (simp add: ret_at_10_others ret_at_10_decode)

section \<open>The joined first pattern of \<open>patterns_x86\<close>\<close>

lemma lit_not_start: "st' \<in> set (lit l (False, xs)) \<Longrightarrow> \<not> fst st'"
proof (induction l arbitrary: xs)
  case Nil
  then show ?case by simp
next
  case (Cons c l)
  then show ?case by (cases xs) (auto split: if_splits)
qed

lemma lit_cons_not_start: "st' \<in> set (lit (c # l) st) \<Longrightarrow> \<not> fst st'"
proof (cases st)
  case (Pair b xs)
  assume "st' \<in> set (lit (c # l) st)"
  with Pair show ?thesis
    by (cases xs) (auto split: if_splits dest: lit_not_start)
qed

lemma seq_not_start:
  assumes "\<And>mid st'. st' \<in> set (rmatch b mid) \<Longrightarrow> \<not> fst st'"
    and "st' \<in> set (rmatch (Seq a b) st)"
  shows "\<not> fst st'"
proof -
  from assms(2) obtain mid where "st' \<in> set (rmatch b mid)" by auto
  then show ?thesis by (rule assms(1))
qed

lemma pop_ret_not_start: "st' \<in> set (rmatch (pop_ret r) st) \<Longrightarrow> \<not> fst st'"
proof -
  have tail: "\<not> fst st'" if "st' \<in> set (rmatch (Seq (Lit ''ret'') (Lit [])) mid)" for mid st'
    using that by (auto dest: lit_cons_not_start)
  have star: "\<not> fst st'" if "st' \<in> set (rmatch (Seq (Star (pops r)) (Seq (Lit ''ret'') (Lit []))) mid)"
    for mid st'
    using tail that by (rule seq_not_start)
  assume "st' \<in> set (rmatch (pop_ret r) st)"
  then have "st' \<in> set (rmatch (Seq Bol (Seq (Star (pops r)) (Seq (Lit ''ret'') (Lit [])))) st)"
    by (simp add: pop_ret_def seqs_def)
  with star show ?thesis by (rule seq_not_start)
qed

lemma pop_call_e_needs_start: "\<not> fst st \<Longrightarrow> rmatch pop_call_e st = []"
  by (simp add: pop_call_e_def seqs_def)

lemma joined_never_matches: "\<not> re_match (Seq (pop_ret ''e'') pop_call_e) s"
proof -
  have "rmatch pop_call_e mid = []" if "mid \<in> set (rmatch (pop_ret ''e'') (True, s))" for mid
    using that by (intro pop_call_e_needs_start) (rule pop_ret_not_start)
  then show ?thesis by (simp add: re_match_def)
qed

lemma show_pop_ret_e: "show_regex (pop_ret ''e'') = ''^(pop e..; )*ret''"
  by (simp add: pop_ret_def pops_def seqs_def esc_def)

lemma show_pop_call_e: "show_regex pop_call_e = ''^(pop e..; )call e..''"
  by (simp add: pop_call_e_def pops_def seqs_def esc_def)

text \<open>
  Claim C9.  The first element of \<open>patterns_x86\<close> is the pattern whose text is the two
  literals \<open>^(pop e..; )*ret\<close> and \<open>^(pop e..; )call e..\<close> joined, which leaves three
  patterns in the list.  The second \<open>^\<close> stands behind \<open>ret\<close>, where the position is no
  longer 0, so the pattern matches no text at all, and for \<open>x86\<close> the selector is left
  with the two remaining patterns (jump through a register, store then return).
\<close>

theorem x86_joined_pattern_dead:
  "show_regex (patterns_x86 ! 0) = ''^(pop e..; )*ret'' @ ''^(pop e..; )call e..'' \<and>
   length patterns_x86 = 3 \<and>
   (\<forall>s. \<not> re_match (patterns_x86 ! 0) s) \<and>
   (\<forall>address i acc. check_patterns patterns_x86 address i acc =
      check_patterns [pop_jmp_e, mov_dword_e] address i acc)"
proof -
  have "check_patterns patterns_x86 address i acc =
      check_patterns [pop_jmp_e, mov_dword_e] address i acc" for address i acc
    by (cases acc) (simp add: patterns_x86_def joined_never_matches)
  then show ?thesis
    by (simp add: patterns_x86_def joined_never_matches show_pop_ret_e show_pop_call_e)
qed

lemma pop_eax_ret_jmp: "\<not> re_match pop_jmp_e ''pop eax; ret''"
  by (simp add: re_match_def pop_jmp_e_def pops_def seqs_def newline_def)

lemma pop_eax_ret_mov: "\<not> re_match mov_dword_e ''pop eax; ret''"
  by (simp add: re_match_def mov_dword_e_def seqs_def newline_def)

theorem x86_joined_pattern_dead_witness:
  "\<not> re_match (patterns_x86 ! 0) ''pop eax; ret'' \<and>
   \<not> re_match (patterns_x86 ! 0) ''pop eax; call eax'' \<and>
   check_patterns patterns_x86 0x400000 [''pop eax'', ''ret''] ([], []) = ([], [])"
  using x86_joined_pattern_dead
  by (simp add: pop_eax_ret_jmp pop_eax_ret_mov)

section \<open>The interesting selector records a gadget once\<close>

lemma dict_set_entry: "(k, v) \<in> set (dict_set d k v)"
  by (induction d) auto

lemma dict_set_value: "v \<in> set (dict_values (dict_set d k v))"
  using dict_set_entry [of k v d] by (force simp: dict_values_def)

lemma check_patterns_known:
  "i \<in> set (dict_values ig) \<Longrightarrow> check_patterns ps address i (ig, w) = (ig, w)"
  by (induction ps) simp_all

lemma check_patterns_no_match:
  "\<forall>p \<in> set ps. \<not> re_match p (join ''; '' i) \<Longrightarrow> check_patterns ps address i (ig, w) = (ig, w)"
  by (induction ps) simp_all

lemma check_patterns_first:
  assumes "\<forall>q \<in> set pre. \<not> re_match q (join ''; '' i)" and "re_match p (join ''; '' i)"
    and "i \<notin> set (dict_values ig)"
  shows "check_patterns (pre @ p # post) address i (ig, w) =
           (dict_set ig address i, w @ report_line address i)"
  using assms(1)
proof (induction pre)
  case Nil
  from assms(2,3) show ?case
    by (simp add: check_patterns_known dict_set_value)
next
  case (Cons q pre)
  then show ?case by simp
qed

lemma check_patterns_cases:
  "check_patterns ps address i (ig, w) =
     (if (\<exists>p \<in> set ps. re_match p (join ''; '' i)) \<and> i \<notin> set (dict_values ig)
      then (dict_set ig address i, w @ report_line address i) else (ig, w))"
proof (cases "i \<in> set (dict_values ig)")
  case True
  then show ?thesis by (simp add: check_patterns_known)
next
  case False
  show ?thesis
  proof (cases "\<exists>p \<in> set ps. re_match p (join ''; '' i)")
    case no: False
    then show ?thesis by (simp add: check_patterns_no_match)
  next
    case True
    then obtain pre p post where split: "ps = pre @ p # post"
        "re_match p (join ''; '' i)" "\<forall>q \<in> set pre. \<not> re_match q (join ''; '' i)"
      using split_list_first_prop [of ps "\<lambda>p. re_match p (join ''; '' i)"] by blast
    have "check_patterns ps address i (ig, w) =
        (dict_set ig address i, w @ report_line address i)"
      unfolding split(1) using split(3,2) False by (rule check_patterns_first)
    with True False show ?thesis by simp
  qed
qed








lemma hex_0x400000: "format_08x 0x400000 = ''0x400000''"
  by (simp add: format_08x_def Let_def digit_char_def)



section \<open>Runs without a pattern table\<close>


lemma find_gadgets_fields [simp]:
  "pattern (find_gadgets fc self) = pattern self"
  "interesting_gadget (find_gadgets fc self) = interesting_gadget self"
  "gadgets_asm (find_gadgets fc self) =
     str_nat (length (gadgets (find_gadgets fc self))) @ '' gadgets found'' @ [newline] @
     concat (map (\<lambda>(address, instructions). report_line address instructions)
              (gadgets (find_gadgets fc self)))"
  by (simp_all add: find_gadgets_def Let_def)



section \<open>A range whose start lies behind its end\<close>

lemma check_interesting_gadgets [simp]: "gadgets (check_interesting self) = gadgets self"
  by (simp add: check_interesting_def Let_def split: option.splits prod.splits)

lemma check_interesting_range [simp]:
  "start (check_interesting self) = start self" "end' (check_interesting self) = end' self"
  by (simp_all add: check_interesting_def Let_def split: option.splits prod.splits)

lemma find_gadgets_range [simp]:
  "start (find_gadgets fc self) = start self" "end' (find_gadgets fc self) = end' self"
  by (simp_all add: find_gadgets_def Let_def)


lemma initialize_fields [simp]:
  "arch (initialize fc self) = arch self" "dis_engine (initialize fc self) = dis_engine self"
  "va (initialize fc self) = va self"
  by (simp_all add: initialize_def check_interesting_def find_gadgets_def Let_def
        split: option.splits prod.splits)













section \<open>The format of printed addresses\<close>

lemma digit_char_cases:
  "d < 16 \<Longrightarrow> digit_char d \<in> set ''0123456789abcdef'' \<and> digit_value (digit_char d) = d"
proof -
  assume "d < 16"
  then have "d \<in> set [0 ..< 16]" by simp
  moreover have "\<forall>d \<in> set [0 ..< 16].
      digit_char d \<in> set ''0123456789abcdef'' \<and> digit_value (digit_char d) = d"
    by code_simp
  ultimately show ?thesis by blast
qed

lemma hex_digits_chars: "set (hex_digits n) \<subseteq> set ''0123456789abcdef''"
proof (induction n rule: hex_digits.induct)
  case (1 n)
  show ?case
  proof (cases "n < 16")
    case True
    then show ?thesis using digit_char_cases [of n] by (subst hex_digits.simps) simp
  next
    case False
    have "n mod 16 < 16" by simp
    with False 1 digit_char_cases [of "n mod 16"] show ?thesis
      by (subst hex_digits.simps) simp
  qed
qed

lemma hex_value_snoc: "hex_value (ds @ [c]) = 16 * hex_value ds + digit_value c"
  by (simp add: hex_value_def)

lemma hex_value_digits: "hex_value (hex_digits n) = n"
proof (induction n rule: hex_digits.induct)
  case (1 n)
  show ?case
  proof (cases "n < 16")
    case True
    then show ?thesis using digit_char_cases [of n]
      by (subst hex_digits.simps) (simp add: hex_value_def)
  next
    case False
    have "n mod 16 < 16" by simp
    with False 1 digit_char_cases [of "n mod 16"] show ?thesis
      by (subst hex_digits.simps) (simp add: hex_value_snoc)
  qed
qed

lemma hex_digits_nonempty: "hex_digits n \<noteq> []"
  by (subst hex_digits.simps) simp

lemma hex_digits_length: "n < 16 ^ k \<Longrightarrow> 0 < k \<Longrightarrow> length (hex_digits n) \<le> k"
proof (induction n arbitrary: k rule: hex_digits.induct)
  case (1 n)
  show ?case
  proof (cases "n < 16")
    case True
    with 1 show ?thesis by (subst hex_digits.simps) simp
  next
    case False
    from 1(2) False have "k \<noteq> Suc 0" by auto
    with 1(3) obtain k' where k: "k = Suc k'" "0 < k'" by (cases k) auto
    with 1(2) have "n div 16 < 16 ^ k'"
      by (simp add: less_mult_imp_div_less mult.commute)
    with False 1(1) k have "length (hex_digits (n div 16)) \<le> k'" by simp
    with False k show ?thesis by (subst hex_digits.simps) simp
  qed
qed

lemma format_08x_nonneg:
  "0 \<le> n \<Longrightarrow> format_08x n =
     ''0x'' @ replicate (6 - length (hex_digits (nat n))) CHR ''0'' @ hex_digits (nat n)"
  by (simp add: format_08x_def Let_def del: hex_digits.simps)

lemma format_08x_negative:
  "n < 0 \<Longrightarrow> format_08x n =
     ''-0x'' @ replicate (5 - length (hex_digits (nat (- n)))) CHR ''0'' @ hex_digits (nat (- n))"
  by (simp add: format_08x_def Let_def del: hex_digits.simps)

lemma format_0x1234: "format_08x 0x1234 = ''0x001234''"
  by (simp add: format_08x_def Let_def digit_char_def numeral_2_eq_2)

text \<open>
  Claim C6 as stated fails: the width 8 of \<open>#08x\<close> counts the prefix, so the address
  \<open>0x1234\<close> is printed with six digits after \<open>0x\<close>, not eight.
\<close>

theorem address_width_counterexample:
  "format_08x 0x1234 = ''0x001234'' \<and> length (drop 2 (format_08x 0x1234)) = 6 \<and>
   report_line 0x1234 [''ret''] = ''0x001234: ret'' @ [newline]"
  by (simp add: format_0x1234 report_line_def)

text \<open>
  Claim C6, amended.  Both sections of the report print every address through the same
  format (\<open>report_line\<close>): for an address that is not negative, the prefix \<open>0x\<close>, then
  zeros, then the lowercase hexadecimal digits of the address, the zeros filling up to
  six digits after the prefix, which is a total width of at least 8 characters and of
  exactly 8 for an address below \<open>16 ^ 6\<close>.
\<close>

theorem address_format:
  "report_line address instructions =
     format_08x address @ '': '' @ join ''; '' instructions @ [newline] \<and>
   gadgets_asm (find_gadgets fc self) =
     str_nat (length (gadgets (find_gadgets fc self))) @ '' gadgets found'' @ [newline] @
     concat (map (\<lambda>(a, g). report_line a g) (gadgets (find_gadgets fc self))) \<and>
   ((\<exists>p \<in> set ps. re_match p (join ''; '' i)) \<and> i \<notin> set (dict_values ig) \<longrightarrow>
      snd (check_patterns ps address i (ig, w)) = w @ report_line address i) \<and>
   (0 \<le> address \<longrightarrow>
      format_08x address =
        ''0x'' @ replicate (6 - length (hex_digits (nat address))) CHR ''0'' @
        hex_digits (nat address) \<and>
      set (hex_digits (nat address)) \<subseteq> set ''0123456789abcdef'' \<and>
      hex_value (hex_digits (nat address)) = nat address \<and>
      8 \<le> length (format_08x address) \<and>
      (address < 16 ^ 6 \<longrightarrow> length (format_08x address) = 8))"
proof (intro conjI impI)
  show "report_line address instructions =
     format_08x address @ '': '' @ join ''; '' instructions @ [newline]"
    by (simp add: report_line_def)
  show "gadgets_asm (find_gadgets fc self) =
     str_nat (length (gadgets (find_gadgets fc self))) @ '' gadgets found'' @ [newline] @
     concat (map (\<lambda>(a, g). report_line a g) (gadgets (find_gadgets fc self)))"
    by (simp del: str_nat.simps)
  show "set (hex_digits (nat address)) \<subseteq> set ''0123456789abcdef''"
    by (rule hex_digits_chars)
  show "hex_value (hex_digits (nat address)) = nat address"
    by (rule hex_value_digits)
next
  assume "(\<exists>p \<in> set ps. re_match p (join ''; '' i)) \<and> i \<notin> set (dict_values ig)"
  then show "snd (check_patterns ps address i (ig, w)) = w @ report_line address i"
    by (simp add: check_patterns_cases)
next
  assume a: "0 \<le> address"
  then show f: "format_08x address =
        ''0x'' @ replicate (6 - length (hex_digits (nat address))) CHR ''0'' @
        hex_digits (nat address)"
    by (rule format_08x_nonneg)
  show "8 \<le> length (format_08x address)"
    unfolding f by (simp del: hex_digits.simps)
  assume "address < 16 ^ 6"
  with a have "nat address < 16 ^ 6" by (simp add: nat_less_iff)
  then have "length (hex_digits (nat address)) \<le> 6"
    by (rule hex_digits_length) simp
  then show "length (format_08x address) = 8"
    unfolding f by (simp del: hex_digits.simps)
qed

lemma hex_digits_0x400000: "hex_digits 0x400000 = ''400000''"
  by (simp add: digit_char_def)

theorem address_format_witness:
  "(0::int) \<le> 0x400000 \<and> (0x400000::int) < 16 ^ 6 \<and> format_08x 0x400000 = ''0x400000'' \<and>
   length (format_08x 0x400000) = 8 \<and>
   hex_value (hex_digits (nat 0x400000)) = nat 0x400000"
  using address_format [where address = "0x400000"]
  by (simp add: hex_0x400000 hex_digits_0x400000 del: hex_digits.simps)

section \<open>A match is kept when more text follows\<close>




















end
